theory Spec2Isabelle
  imports Main
begin

section \<open>FileDetection: a shallow embedding of file_detection.py\<close>

text \<open>
  The program watches one file, and on the first change notification for it kills every
  process of a given name, truncates the file and stops. Everything it does goes through
  the operating system (psutil, win32file, \<open>open\<close>, \<open>time.sleep\<close>, the console), so the
  model makes the operating system explicit:
  \<^item> what the program does to it is recorded, in order, as a list of \<open>event\<close>s;
  \<^item> what it answers (the process table, whether a kill, an \<open>open\<close> or the directory
    handle fails, the notification batches, what the foreground loop sees) is an input of
    the model, the record \<open>env\<close> and the lists \<open>batches\<close> and \<open>ticks\<close>;
  \<^item> a Python exception is a value of \<open>error\<close>; a call returns \<open>None\<close> when it returns
    normally and \<open>Some e\<close> when it raises \<open>e\<close>, next to the world it leaves behind.
\<close>

subsection \<open>Data\<close>

datatype error =
    NoSuchProcess        \<comment> \<open>psutil.NoSuchProcess\<close>
  | AccessDenied         \<comment> \<open>psutil.AccessDenied\<close>
  | PermissionError      \<comment> \<open>the builtin: the file is locked or not writable\<close>
  | FileNotFoundError    \<comment> \<open>the builtin: the directory of the path is gone\<close>
  | OSError              \<comment> \<open>any other OSError of \<open>open\<close>\<close>
  | Win32Error           \<comment> \<open>pywintypes.error of win32file.CreateFile\<close>
  | KeyboardInterrupt
  | EOFError             \<comment> \<open>the builtin: \<open>input\<close> at the end of standard input\<close>

datatype event =
    Print string                 \<comment> \<open>a line on standard output\<close>
  | ProcessIter                  \<comment> \<open>psutil.process_iter: the kill step starts\<close>
  | Kill nat                     \<comment> \<open>proc.kill() on the process of this pid\<close>
  | OpenW string                 \<comment> \<open>one call of open(path, 'w')\<close>
  | Truncate string              \<comment> \<open>file.truncate(0) on the opened file\<close>
  | Sleep nat                    \<comment> \<open>time.sleep, in seconds\<close>
  | CreateFile string            \<comment> \<open>win32file.CreateFile on a directory\<close>
  | ReadDirectoryChangesW        \<comment> \<open>one blocking receive of a notification batch\<close>
  | SetRunning bool              \<comment> \<open>an assignment to IS_RUNNING\<close>
  | ThreadStart string string    \<comment> \<open>monitor_thread.start()\<close>
  | Input string                 \<comment> \<open>one call of input(prompt)\<close>

text \<open>One entry of \<open>psutil.process_iter(attrs=['pid', 'name'])\<close>, with what \<open>kill()\<close> on
  it will do: \<open>None\<close> when the process is terminated and the call returns, \<open>Some e\<close> when
  the call raises \<open>e\<close> (psutil raises \<open>NoSuchProcess\<close> for a process that has exited and
  \<open>AccessDenied\<close> for one it may not terminate). The program's own process is taken not
  to carry the selected name: killing it would end the run at that call.\<close>

record proc =
  pid :: nat
  name :: string
  kill_error :: "error option"

text \<open>The operating system as the program meets it. \<open>basename\<close> and \<open>dirname\<close> are
  \<open>os.path.basename\<close> and \<open>os.path.dirname\<close>; \<open>open_error k\<close> is what the \<open>k\<close>-th call of
  \<open>open(path, 'w')\<close> of this run raises, if anything (a locked file raises
  \<open>PermissionError\<close>, a path whose directory is gone \<open>FileNotFoundError\<close>);
  \<open>create_error\<close> is what opening the directory handle raises; \<open>input_error\<close> is what
  the call of \<open>input\<close> raises: \<open>None\<close> when it blocks until a line is typed and returns
  it, \<open>Some EOFError\<close> when standard input is at its end, \<open>Some KeyboardInterrupt\<close> when
  Ctrl-C arrives while it waits.\<close>

record env =
  basename :: "string \<Rightarrow> string"
  dirname :: "string \<Rightarrow> string"
  process_iter :: "proc list"
  open_error :: "nat \<Rightarrow> error option"
  create_error :: "error option"
  input_error :: "error option"

text \<open>The mutable state: the global flag, the contents of the files by path (\<open>None\<close>: no
  such file), the events so far and the number of \<open>open\<close> calls so far.\<close>

record world =
  IS_RUNNING :: bool
  files :: "string \<rightharpoonup> string"
  trace :: "event list"
  opens :: nat

definition init_world :: "(string \<rightharpoonup> string) \<Rightarrow> world" where
  "init_world fs = \<lparr>IS_RUNNING = True, files = fs, trace = [], opens = 0\<rparr>"

definition emit :: "event \<Rightarrow> world \<Rightarrow> world" where
  "emit e w = w\<lparr>trace := trace w @ [e]\<rparr>"

text \<open>Python's \<open>str\<close> of a non-negative integer, for the pid in a printed line.\<close>

fun str_nat :: "nat \<Rightarrow> string" where
  "str_nat n =
     (if n < 10 then [''0123456789'' ! n]
      else str_nat (n div 10) @ [''0123456789'' ! (n mod 10)])"

declare str_nat.simps [simp del]

subsection \<open>kill_process_by_name\<close>

text \<open>The loop over the process table. There is no \<open>try\<close> around \<open>proc.kill()\<close>: an
  exception of it leaves the loop and the function.\<close>

fun kill_loop :: "string \<Rightarrow> proc list \<Rightarrow> world \<Rightarrow> error option \<times> world" where
  "kill_loop process_name [] w = (None, w)"
| "kill_loop process_name (p # ps) w =
     (if name p = process_name then
        (let w1 = emit (Print (''Terminating process '' @ process_name @ '' (PID: '' @
                          str_nat (pid p) @ '')'')) w;
             w2 = emit (Kill (pid p)) w1
         in case kill_error p of
              Some e \<Rightarrow> (Some e, w2)
            | None \<Rightarrow> kill_loop process_name ps w2)
      else kill_loop process_name ps w)"

definition kill_process_by_name :: "env \<Rightarrow> string \<Rightarrow> world \<Rightarrow> error option \<times> world" where
  "kill_process_by_name E process_name w =
     kill_loop process_name (process_iter E) (emit ProcessIter w)"

subsection \<open>clear_file_content\<close>

definition max_retries :: nat where
  "max_retries = 5"

text \<open>\<open>for attempt in range(max_retries)\<close>: each attempt opens the path in write mode. A
  successful \<open>open(path, 'w')\<close> creates the file when it is missing and empties it, then
  \<open>truncate(0)\<close> cuts it to length 0, the line is printed and \<open>break\<close> leaves the loop.
  \<open>PermissionError\<close> is caught and followed by \<open>time.sleep(1)\<close>; any other exception
  propagates. When the attempts are used up the function returns.\<close>

fun attempt_loop :: "env \<Rightarrow> string \<Rightarrow> nat list \<Rightarrow> world \<Rightarrow> error option \<times> world" where
  "attempt_loop E file_path [] w = (None, w)"
| "attempt_loop E file_path (attempt # rest) w =
     (let w1 = emit (OpenW file_path) (w\<lparr>opens := Suc (opens w)\<rparr>)
      in case open_error E (opens w) of
           None \<Rightarrow>
             (let w2 = w1\<lparr>files := (files w1)(file_path \<mapsto> [])\<rparr>;
                  w3 = emit (Truncate file_path)
                         (w2\<lparr>files := (files w2)(file_path := map_option (take 0) (files w2 file_path))\<rparr>);
                  w4 = emit (Print (''The file is corrupted: '' @ file_path @ ''.'')) w3
              in (None, w4))
         | Some e \<Rightarrow>
             (if e = PermissionError then attempt_loop E file_path rest (emit (Sleep 1) w1)
              else (Some e, w1)))"

definition clear_file_content :: "env \<Rightarrow> string \<Rightarrow> world \<Rightarrow> error option \<times> world" where
  "clear_file_content E file_path w = attempt_loop E file_path [0 ..< max_retries] w"

subsection \<open>monitor_file\<close>

text \<open>Lines 76 and 77 of monitor_file, the responder: the kill step, then the truncate
  step. An exception of the first skips the second.\<close>

definition respond :: "env \<Rightarrow> string \<Rightarrow> string \<Rightarrow> world \<Rightarrow> error option \<times> world" where
  "respond E file_to_watch process_name w =
     (case kill_process_by_name E process_name w of
        (Some e, w1) \<Rightarrow> (Some e, w1)
      | (None, w1) \<Rightarrow> clear_file_content E file_to_watch w1)"

text \<open>\<open>for action, filename in results\<close>: the first event whose file name is the base name
  of the watched path runs the responder, clears the flag and breaks.\<close>

fun for_results ::
  "env \<Rightarrow> string \<Rightarrow> string \<Rightarrow> (nat \<times> string) list \<Rightarrow> world \<Rightarrow> error option \<times> world" where
  "for_results E file_to_watch process_name [] w = (None, w)"
| "for_results E file_to_watch process_name ((action, filename) # rest) w =
     (if filename = basename E file_to_watch then
        (case respond E file_to_watch process_name
                (emit (Print (''Detected activity on '' @ file_to_watch)) w) of
           (Some e, w1) \<Rightarrow> (Some e, w1)
         | (None, w1) \<Rightarrow> (None, emit (SetRunning False) (w1\<lparr>IS_RUNNING := False\<rparr>)))
      else for_results E file_to_watch process_name rest w)"

text \<open>How the monitor thread ends: it returns, it dies of an exception, or it stays
  blocked in \<open>ReadDirectoryChangesW\<close> because no further batch arrives.\<close>

datatype status = Returned | Raised error | Blocked

text \<open>\<open>while IS_RUNNING\<close>: the batches the operating system will deliver are the list.\<close>

fun while_running ::
  "env \<Rightarrow> string \<Rightarrow> string \<Rightarrow> (nat \<times> string) list list \<Rightarrow> world \<Rightarrow> status \<times> world" where
  "while_running E file_to_watch process_name [] w =
     (if IS_RUNNING w then (Blocked, emit ReadDirectoryChangesW w) else (Returned, w))"
| "while_running E file_to_watch process_name (results # later) w =
     (if IS_RUNNING w then
        (case for_results E file_to_watch process_name results (emit ReadDirectoryChangesW w) of
           (Some e, w1) \<Rightarrow> (Raised e, w1)
         | (None, w1) \<Rightarrow> while_running E file_to_watch process_name later w1)
      else (Returned, w))"

definition monitor_file ::
  "env \<Rightarrow> string \<Rightarrow> string \<Rightarrow> (nat \<times> string) list list \<Rightarrow> world \<Rightarrow> status \<times> world" where
  "monitor_file E file_to_watch process_name batches w =
     (let w1 = emit (CreateFile (dirname E file_to_watch)) w
      in case create_error E of
           Some e \<Rightarrow> (Raised e, w1)
         | None \<Rightarrow> while_running E file_to_watch process_name batches w1)"

subsection \<open>The main block\<close>

text \<open>One turn of the foreground loop, as the scheduler decides it: \<open>seen\<close> is the value
  of IS_RUNNING that the loop test reads, \<open>interrupt\<close> says whether Ctrl-C arrives during
  the \<open>time.sleep(1)\<close> that follows.\<close>

record tick =
  seen :: bool
  interrupt :: bool

text \<open>\<open>while IS_RUNNING: time.sleep(1)\<close>. \<open>None\<close>: the loop is still running when the
  ticks are used up.\<close>

fun wait_loop :: "tick list \<Rightarrow> event list \<Rightarrow> (error option \<times> event list) option" where
  "wait_loop [] tr = None"
| "wait_loop (t # ts) tr =
     (if seen t then
        (if interrupt t then Some (Some KeyboardInterrupt, tr @ [Sleep 1])
         else wait_loop ts (tr @ [Sleep 1]))
      else Some (None, tr))"

text \<open>The \<open>try\<close> statement around the loop. \<open>except KeyboardInterrupt\<close> prints and
  swallows the interrupt; any other exception stays pending. \<open>finally\<close> calls \<open>input\<close>
  whatever happened: when the call returns, a pending exception is raised again; when the
  call itself raises, that exception leaves the statement.\<close>

definition foreground ::
  "env \<Rightarrow> tick list \<Rightarrow> event list \<Rightarrow> (error option \<times> event list) option" where
  "foreground E ticks tr =
     (case wait_loop ticks tr of
        None \<Rightarrow> None
      | Some (r, tr1) \<Rightarrow>
          (let (pending, tr2) =
                 (case r of
                    None \<Rightarrow> (None, tr1)
                  | Some e \<Rightarrow>
                      (if e = KeyboardInterrupt then (None, tr1 @ [Print ''KeyboardInterrupt''])
                       else (Some e, tr1)));
               tr3 = tr2 @ [Input ''Press Enter to quit'']
           in case input_error E of
                None \<Rightarrow> Some (pending, tr3)
              | Some e \<Rightarrow> Some (Some e, tr3)))"

text \<open>The exit code of the interpreter when an exception leaves the main block: 1 after
  the traceback, except for \<open>KeyboardInterrupt\<close>, where Python (3.8 and later) on Windows
  exits with STATUS_CONTROL_C_EXIT, 0xC000013A.\<close>

definition uncaught_exit_code :: "error \<Rightarrow> nat" where
  "uncaught_exit_code e = (if e = KeyboardInterrupt then 3221225786 else 1)"

text \<open>A run of the program: what the main thread did, the exit code once the process has
  exited, and the monitor thread's own run when the thread was started.\<close>

record run =
  main_trace :: "event list"
  exit_code :: "nat option"
  thread :: "(status \<times> world) option"

definition main ::
  "env \<Rightarrow> (string \<rightharpoonup> string) \<Rightarrow> string list \<Rightarrow> (nat \<times> string) list list \<Rightarrow> tick list \<Rightarrow> run" where
  "main E fs argv batches ticks =
     (if length argv \<noteq> 3 then
        \<lparr>main_trace = [Print ''Usage: FileDetection <file_path> <process_name>''],
         exit_code = Some 1, thread = None\<rparr>
      else
        (let FILE_TO_WATCH = argv ! 1;
             PROCESS_NAME = argv ! 2;
             tr = [Print (''Monitoring '' @ FILE_TO_WATCH @ '' for activity...''),
                   ThreadStart FILE_TO_WATCH PROCESS_NAME];
             monitor_thread = monitor_file E FILE_TO_WATCH PROCESS_NAME batches (init_world fs)
         in case foreground E ticks tr of
              None \<Rightarrow> \<lparr>main_trace = tr, exit_code = None, thread = Some monitor_thread\<rparr>
            | Some (None, tr1) \<Rightarrow>
                \<lparr>main_trace = tr1, exit_code = Some 0, thread = Some monitor_thread\<rparr>
            | Some (Some e, tr1) \<Rightarrow>
                \<lparr>main_trace = tr1, exit_code = Some (uncaught_exit_code e),
                 thread = Some monitor_thread\<rparr>))"

subsection \<open>Observations on a trace\<close>

text \<open>The pids of the termination calls of a trace, in order.\<close>

fun kills :: "event list \<Rightarrow> nat list" where
  "kills [] = []"
| "kills (Kill n # es) = n # kills es"
| "kills (e # es) = kills es"

text \<open>What the monitor thread can have done after its receive calls: nothing yet, or one
  run of the responder, with the flag cleared last when both steps returned.\<close>

definition run_shape :: "string \<Rightarrow> event list \<Rightarrow> bool \<Rightarrow> bool" where
  "run_shape f rest running \<longleftrightarrow>
     rest = [] \<and> running \<or>
     (\<exists>d ks ts ss. rest = Print d # ProcessIter # ks @ ts @ ss \<and>
        set ks \<subseteq> range Print \<union> range Kill \<and>
        set ts \<subseteq> range Print \<union> range OpenW \<union> range Truncate \<union> range Sleep \<and>
        (ss = [] \<and> running \<or> ss = [SetRunning False] \<and> OpenW f \<in> set ts \<and> \<not> running))"

subsection \<open>Example inputs\<close>

text \<open>An environment for concrete runs: paths of the form \<open>C:/dir/name\<close>, for which
  \<open>os.path.basename\<close> and \<open>os.path.dirname\<close> cut at the last slash; a process table; a
  lock schedule. The directory handle opens.\<close>

definition example_basename :: "string \<Rightarrow> string" where
  "example_basename p = rev (takeWhile (\<lambda>c. c \<noteq> CHR ''/'') (rev p))"

definition example_dirname :: "string \<Rightarrow> string" where
  "example_dirname p = rev (drop 1 (dropWhile (\<lambda>c. c \<noteq> CHR ''/'') (rev p)))"

definition example_env :: "proc list \<Rightarrow> (nat \<Rightarrow> error option) \<Rightarrow> env" where
  "example_env ps locks =
     \<lparr>basename = example_basename, dirname = example_dirname, process_iter = ps,
      open_error = locks, create_error = None, input_error = None\<rparr>"

definition watched :: string where
  "watched = ''C:/data/app.log''"

text \<open>Two processes of the selected name; in the second table the first of them cannot
  be killed.\<close>

definition writers :: "proc list" where
  "writers =
     [\<lparr>pid = 4, name = ''System'', kill_error = None\<rparr>,
      \<lparr>pid = 812, name = ''writer.exe'', kill_error = None\<rparr>,
      \<lparr>pid = 1300, name = ''writer.exe'', kill_error = None\<rparr>]"

definition protected_writers :: "proc list" where
  "protected_writers =
     [\<lparr>pid = 4, name = ''System'', kill_error = None\<rparr>,
      \<lparr>pid = 812, name = ''writer.exe'', kill_error = Some AccessDenied\<rparr>,
      \<lparr>pid = 1300, name = ''writer.exe'', kill_error = None\<rparr>]"

text \<open>The file is locked for the first \<open>n\<close> calls of \<open>open\<close> and free afterwards.\<close>

definition locked_for :: "nat \<Rightarrow> nat \<Rightarrow> error option" where
  "locked_for n k = (if k < n then Some PermissionError else None)"

text \<open>The directory of the path has been removed: every \<open>open\<close> raises
  \<open>FileNotFoundError\<close>.\<close>

definition directory_gone :: "nat \<Rightarrow> error option" where
  "directory_gone k = Some FileNotFoundError"

definition example_files :: "string \<rightharpoonup> string" where
  "example_files = [watched \<mapsto> ''secret'']"

definition example_argv :: "string list" where
  "example_argv = [''FileDetection'', ''C:/data/app.log'', ''writer.exe'']"

text \<open>Two schedules of the foreground loop: the flag is seen cleared at the third test;
  Ctrl-C arrives during the second sleep.\<close>

definition ticks_triggered :: "tick list" where
  "ticks_triggered =
     [\<lparr>seen = True, interrupt = False\<rparr>, \<lparr>seen = True, interrupt = False\<rparr>,
      \<lparr>seen = False, interrupt = False\<rparr>]"

definition ticks_interrupted :: "tick list" where
  "ticks_interrupted =
     [\<lparr>seen = True, interrupt = False\<rparr>, \<lparr>seen = True, interrupt = True\<rparr>]"

section \<open>Properties\<close>

subsection \<open>Evaluation\<close>

lemma emit_simps [simp]:
  "trace (emit e w) = trace w @ [e]"
  "IS_RUNNING (emit e w) = IS_RUNNING w"
  "files (emit e w) = files w"
  "opens (emit e w) = opens w"
  by (simp_all add: emit_def)

lemma range_max_retries: "[0 ..< max_retries] = [0, 1, 2, 3, 4]"
  by (simp add: max_retries_def upt_rec)

lemma max_retries_range: "[0 ..< max_retries] \<noteq> []"
  by (simp add: max_retries_def)

lemma range5: "[0 ..< max_retries] = [0 ..< 4] @ [4]"
  using upt_Suc_append [of 0 4] by (simp add: max_retries_def)

lemma range_first: "[0 ..< max_retries] = 0 # [1 ..< max_retries]"
  by (simp add: max_retries_def upt_conv_Cons)

lemmas run_defs =
  monitor_file_def kill_process_by_name_def respond_def clear_file_content_def
  range_max_retries init_world_def emit_def Let_def str_nat.simps
  main_def foreground_def

lemmas example_defs =
  example_env_def example_basename_def example_dirname_def watched_def writers_def
  protected_writers_def locked_for_def example_files_def

subsection \<open>The kill step\<close>

lemma kills_append: "kills (xs @ ys) = kills xs @ kills ys"
  by (induction xs rule: kills.induct) simp_all

lemma kills_none: "\<forall>n. Kill n \<notin> set es \<Longrightarrow> kills es = []"
proof (induction es)
  case Nil
  show ?case by simp
next
  case (Cons e es)
  then show ?case by (cases e) auto
qed

lemma kill_loop_frame:
  "IS_RUNNING (snd (kill_loop pn ps w)) = IS_RUNNING w \<and>
   files (snd (kill_loop pn ps w)) = files w \<and>
   opens (snd (kill_loop pn ps w)) = opens w"
  by (induction ps arbitrary: w) (simp_all add: Let_def split: option.splits)

lemma kill_process_by_name_frame:
  "IS_RUNNING (snd (kill_process_by_name E pn w)) = IS_RUNNING w \<and>
   files (snd (kill_process_by_name E pn w)) = files w \<and>
   opens (snd (kill_process_by_name E pn w)) = opens w"
  by (simp add: kill_process_by_name_def kill_loop_frame)

lemma kill_loop_trace:
  "\<exists>ks. trace (snd (kill_loop pn ps w)) = trace w @ ks \<and> set ks \<subseteq> range Print \<union> range Kill"
proof (induction ps arbitrary: w)
  case Nil
  show ?case by simp
next
  case (Cons p ps)
  show ?case
  proof (cases "name p = pn")
    case False
    with Cons show ?thesis by simp
  next
    case True
    let ?w2 = "emit (Kill (pid p)) (emit (Print (''Terminating process '' @ pn @ '' (PID: '' @
                          str_nat (pid p) @ '')'')) w)"
    show ?thesis
    proof (cases "kill_error p")
      case (Some e)
      with True show ?thesis by (simp add: Let_def)
    next
      case None
      from Cons [of ?w2] obtain ks where
        "trace (snd (kill_loop pn ps ?w2)) = trace ?w2 @ ks" "set ks \<subseteq> range Print \<union> range Kill"
        by blast
      with True None show ?thesis by (simp add: Let_def)
    qed
  qed
qed

lemma kill_loop_all_killed:
  "\<forall>p\<in>set ps. name p = pn \<longrightarrow> kill_error p = None \<Longrightarrow>
   fst (kill_loop pn ps w) = None \<and>
   kills (trace (snd (kill_loop pn ps w))) = kills (trace w) @ map pid (filter (\<lambda>p. name p = pn) ps)"
  by (induction ps arbitrary: w) (simp_all add: Let_def kills_append)

lemma kill_loop_all_killed_trace:
  "\<forall>p\<in>set ps. name p = pn \<longrightarrow> kill_error p = None \<Longrightarrow>
   trace (snd (kill_loop pn ps w)) =
     trace w @ concat (map (\<lambda>p. [Print (''Terminating process '' @ pn @ '' (PID: '' @
                                       str_nat (pid p) @ '')''), Kill (pid p)])
                        (filter (\<lambda>p. name p = pn) ps))"
  by (induction ps arbitrary: w) (simp_all add: Let_def)

text \<open>C6, as the code has it: when no termination call on a matching process raises, the
  kill step returns normally and has issued exactly one termination call for each process
  whose name equals the selector's, in the order of the table, and no other; with no
  matching process that is no termination call and no error. (A call that raises ends the
  step there.)\<close>

theorem kill_step_one_call_per_match:
  assumes "\<forall>p\<in>set (process_iter E). name p = pn \<longrightarrow> kill_error p = None"
  shows "fst (kill_process_by_name E pn w) = None \<and>
     kills (trace (snd (kill_process_by_name E pn w))) =
       kills (trace w) @ map pid (filter (\<lambda>p. name p = pn) (process_iter E))"
  using kill_loop_all_killed [OF assms, of "emit ProcessIter w"]
  by (simp add: kill_process_by_name_def kills_append)

theorem kill_step_one_call_per_match_witness:
  "fst (kill_process_by_name (example_env writers (locked_for 0)) ''writer.exe'' (init_world example_files)) = None \<and>
   kills (trace (snd (kill_process_by_name (example_env writers (locked_for 0)) ''writer.exe''
      (init_world example_files)))) = [812, 1300] \<and>
   fst (kill_process_by_name (example_env writers (locked_for 0)) ''notepad.exe'' (init_world example_files)) = None \<and>
   kills (trace (snd (kill_process_by_name (example_env writers (locked_for 0)) ''notepad.exe''
      (init_world example_files)))) = []"
  using kill_step_one_call_per_match [of "example_env writers (locked_for 0)" "''writer.exe''"
      "init_world example_files"]
    kill_step_one_call_per_match [of "example_env writers (locked_for 0)" "''notepad.exe''"
      "init_world example_files"]
  by (simp add: example_env_def writers_def init_world_def)

text \<open>The processes at positions 1 and 2 of the table carry the name and the kill of the
  first of them raises \<open>AccessDenied\<close>: the step raises after that one termination call,
  the second match (pid 1300) is never tried.\<close>

theorem kill_step_counterexample:
  "name (process_iter (example_env protected_writers (locked_for 0)) ! 1) = ''writer.exe'' \<and>
   name (process_iter (example_env protected_writers (locked_for 0)) ! 2) = ''writer.exe'' \<and>
   pid (process_iter (example_env protected_writers (locked_for 0)) ! 2) = 1300 \<and>
   kills (trace (snd (kill_process_by_name (example_env protected_writers (locked_for 0)) ''writer.exe''
      (init_world example_files)))) = [812] \<and>
   fst (kill_process_by_name (example_env protected_writers (locked_for 0)) ''writer.exe''
      (init_world example_files)) = Some AccessDenied"
  by (simp add: run_defs example_defs)

subsection \<open>The truncate step\<close>

lemma attempt_loop_frame:
  "IS_RUNNING (snd (attempt_loop E f as w)) = IS_RUNNING w"
  by (induction as arbitrary: w) (simp_all add: Let_def split: option.splits)

lemma attempt_loop_trace:
  "\<exists>ts. trace (snd (attempt_loop E f as w)) = trace w @ ts \<and>
        set ts \<subseteq> range Print \<union> range OpenW \<union> range Truncate \<union> range Sleep \<and>
        (as \<noteq> [] \<longrightarrow> OpenW f \<in> set ts)"
proof (induction as arbitrary: w)
  case Nil
  show ?case by simp
next
  case (Cons a as)
  let ?w1 = "emit (OpenW f) (w\<lparr>opens := Suc (opens w)\<rparr>)"
  show ?case
  proof (cases "open_error E (opens w)")
    case None
    then show ?thesis by (simp add: Let_def)
  next
    case (Some e)
    show ?thesis
    proof (cases "e = PermissionError")
      case False
      with Some show ?thesis by (simp add: Let_def)
    next
      case True
      from Cons [of "emit (Sleep 1) ?w1"] obtain ts where
        "trace (snd (attempt_loop E f as (emit (Sleep 1) ?w1))) = trace (emit (Sleep 1) ?w1) @ ts"
        "set ts \<subseteq> range Print \<union> range OpenW \<union> range Truncate \<union> range Sleep"
        by blast
      with True Some show ?thesis by (simp add: Let_def)
    qed
  qed
qed

lemma attempt_loop_first_open:
  "\<exists>post. trace (snd (attempt_loop E f (a # as) w)) = trace w @ OpenW f # post \<and>
     (\<forall>n. Kill n \<notin> set post)"
proof (cases "open_error E (opens w)")
  case None
  then show ?thesis by (simp add: Let_def)
next
  case (Some e)
  show ?thesis
  proof (cases "e = PermissionError")
    case False
    with Some show ?thesis by (simp add: Let_def)
  next
    case True
    let ?w2 = "emit (Sleep 1) (emit (OpenW f) (w\<lparr>opens := Suc (opens w)\<rparr>))"
    obtain ts where ts: "trace (snd (attempt_loop E f as ?w2)) = trace ?w2 @ ts"
      "set ts \<subseteq> range Print \<union> range OpenW \<union> range Truncate \<union> range Sleep"
      using attempt_loop_trace [of E f as ?w2] by (elim exE conjE)
    have "\<forall>n. Kill n \<notin> set (Sleep 1 # ts)" using ts(2) by auto
    moreover have "trace (snd (attempt_loop E f (a # as) w)) = trace w @ OpenW f # Sleep 1 # ts"
      using Some True ts(1) by (simp add: Let_def)
    ultimately show ?thesis by blast
  qed
qed

lemma attempt_loop_locked:
  "\<forall>k<length as. open_error E (opens w + k) = Some PermissionError \<Longrightarrow>
   fst (attempt_loop E f as w) = None \<and>
   trace (snd (attempt_loop E f as w)) =
     trace w @ concat (replicate (length as) [OpenW f, Sleep 1]) \<and>
   opens (snd (attempt_loop E f as w)) = opens w + length as \<and>
   files (snd (attempt_loop E f as w)) = files w"
proof (induction as arbitrary: w)
  case Nil
  show ?case by simp
next
  case (Cons a as)
  let ?w2 = "emit (Sleep 1) (emit (OpenW f) (w\<lparr>opens := Suc (opens w)\<rparr>))"
  from Cons.prems have first: "open_error E (opens w) = Some PermissionError"
    by (metis add.right_neutral length_greater_0_conv list.distinct(1))
  have "\<forall>k<length as. open_error E (opens ?w2 + k) = Some PermissionError"
    using Cons.prems by (auto dest: spec [of _ "Suc k" for k])
  from Cons.IH [OF this] first show ?case by (simp add: Let_def)
qed

lemma attempt_loop_append:
  "\<forall>k<length as. open_error E (opens w + k) = Some PermissionError \<Longrightarrow>
   attempt_loop E f (as @ bs) w = attempt_loop E f bs (snd (attempt_loop E f as w))"
proof (induction as arbitrary: w)
  case Nil
  show ?case by simp
next
  case (Cons a as)
  let ?w2 = "emit (Sleep 1) (emit (OpenW f) (w\<lparr>opens := Suc (opens w)\<rparr>))"
  from Cons.prems have first: "open_error E (opens w) = Some PermissionError"
    by (metis add.right_neutral length_greater_0_conv list.distinct(1))
  have "\<forall>k<length as. open_error E (opens ?w2 + k) = Some PermissionError"
    using Cons.prems by (auto dest: spec [of _ "Suc k" for k])
  from Cons.IH [OF this] first show ?case by (simp add: Let_def)
qed

lemma attempt_loop_free:
  "open_error E (opens w) = None \<Longrightarrow>
   fst (attempt_loop E f (a # as) w) = None \<and>
   trace (snd (attempt_loop E f (a # as) w)) =
     trace w @ [OpenW f, Truncate f, Print (''The file is corrupted: '' @ f @ ''.'')] \<and>
   opens (snd (attempt_loop E f (a # as) w)) = Suc (opens w) \<and>
   files (snd (attempt_loop E f (a # as) w)) = (files w)(f \<mapsto> []) \<and>
   IS_RUNNING (snd (attempt_loop E f (a # as) w)) = IS_RUNNING w"
  by (simp add: Let_def)

lemma attempt_loop_raise:
  "open_error E (opens w) = Some e \<Longrightarrow> e \<noteq> PermissionError \<Longrightarrow>
   fst (attempt_loop E f (a # as) w) = Some e \<and>
   trace (snd (attempt_loop E f (a # as) w)) = trace w @ [OpenW f] \<and>
   files (snd (attempt_loop E f (a # as) w)) = files w"
  by (simp add: Let_def)

lemma attempt_loop_no_raise:
  "\<forall>k<length as. open_error E (opens w + k) = None \<or>
       open_error E (opens w + k) = Some PermissionError \<Longrightarrow>
   fst (attempt_loop E f as w) = None"
proof (induction as arbitrary: w)
  case Nil
  show ?case by simp
next
  case (Cons a as)
  let ?w2 = "emit (Sleep 1) (emit (OpenW f) (w\<lparr>opens := Suc (opens w)\<rparr>))"
  from Cons.prems have first: "open_error E (opens w) = None \<or>
       open_error E (opens w) = Some PermissionError"
    by (metis add.right_neutral length_greater_0_conv list.distinct(1))
  have "\<forall>k<length as. open_error E (opens ?w2 + k) = None \<or>
       open_error E (opens ?w2 + k) = Some PermissionError"
    using Cons.prems by (auto dest: spec [of _ "Suc k" for k])
  from Cons.IH [OF this] first show ?case by (auto simp: Let_def)
qed

text \<open>C4: a file that is locked for the first four attempts and free on the fifth is
  truncated with exactly five calls of \<open>open\<close>; a file that is locked on all attempts makes
  the truncate step return normally after exactly five calls of \<open>open\<close>, each followed by
  a sleep of one second, and its content is what it was.\<close>

theorem truncate_retry_policy:
  "((\<forall>k<4. open_error E (opens w + k) = Some PermissionError) \<and>
    open_error E (opens w + 4) = None \<longrightarrow>
      fst (clear_file_content E f w) = None \<and>
      trace (snd (clear_file_content E f w)) =
        trace w @ concat (replicate 4 [OpenW f, Sleep 1]) @
          [OpenW f, Truncate f, Print (''The file is corrupted: '' @ f @ ''.'')] \<and>
      opens (snd (clear_file_content E f w)) = opens w + 5 \<and>
      files (snd (clear_file_content E f w)) f = Some []) \<and>
   ((\<forall>k<5. open_error E (opens w + k) = Some PermissionError) \<longrightarrow>
      fst (clear_file_content E f w) = None \<and>
      trace (snd (clear_file_content E f w)) =
        trace w @ concat (replicate 5 [OpenW f, Sleep 1]) \<and>
      opens (snd (clear_file_content E f w)) = opens w + 5 \<and>
      files (snd (clear_file_content E f w)) = files w)"
proof (intro conjI impI)
  assume a: "(\<forall>k<4. open_error E (opens w + k) = Some PermissionError) \<and>
    open_error E (opens w + 4) = None"
  let ?w4 = "snd (attempt_loop E f [0 ..< 4] w)"
  have l: "\<forall>k<length [0 ..< 4]. open_error E (opens w + k) = Some PermissionError"
    using a by simp
  have eq: "clear_file_content E f w = attempt_loop E f [4] ?w4"
    unfolding clear_file_content_def range5 by (rule attempt_loop_append [OF l])
  have w4: "trace ?w4 = trace w @ concat (replicate 4 [OpenW f, Sleep 1])"
    "opens ?w4 = opens w + 4" "files ?w4 = files w"
    using attempt_loop_locked [OF l, of f] by simp_all
  then have free: "open_error E (opens ?w4) = None" using a by simp
  note r = attempt_loop_free [OF free, of f 4 "[]"]
  show "fst (clear_file_content E f w) = None" using r eq by simp
  show "trace (snd (clear_file_content E f w)) =
        trace w @ concat (replicate 4 [OpenW f, Sleep 1]) @
          [OpenW f, Truncate f, Print (''The file is corrupted: '' @ f @ ''.'')]"
    using r eq w4 by simp
  show "opens (snd (clear_file_content E f w)) = opens w + 5" using r eq w4 by simp
  show "files (snd (clear_file_content E f w)) f = Some []" using r eq w4 by simp
next
  assume a: "\<forall>k<5. open_error E (opens w + k) = Some PermissionError"
  then have l: "\<forall>k<length [0 ..< max_retries]. open_error E (opens w + k) = Some PermissionError"
    by (simp add: max_retries_def)
  note r = attempt_loop_locked [OF l, of f]
  show "fst (clear_file_content E f w) = None" using r by (simp add: clear_file_content_def)
  show "trace (snd (clear_file_content E f w)) = trace w @ concat (replicate 5 [OpenW f, Sleep 1])"
    using r by (simp add: clear_file_content_def max_retries_def)
  show "opens (snd (clear_file_content E f w)) = opens w + 5"
    using r by (simp add: clear_file_content_def max_retries_def)
  show "files (snd (clear_file_content E f w)) = files w"
    using r by (simp add: clear_file_content_def)
qed

theorem truncate_retry_policy_witness:
  "fst (clear_file_content (example_env writers (locked_for 4)) watched (init_world example_files)) = None \<and>
   trace (snd (clear_file_content (example_env writers (locked_for 4)) watched (init_world example_files))) =
     [OpenW watched, Sleep 1, OpenW watched, Sleep 1, OpenW watched, Sleep 1, OpenW watched, Sleep 1,
      OpenW watched, Truncate watched, Print ''The file is corrupted: C:/data/app.log.''] \<and>
   opens (snd (clear_file_content (example_env writers (locked_for 4)) watched (init_world example_files))) = 5 \<and>
   files (snd (clear_file_content (example_env writers (locked_for 4)) watched (init_world example_files))) watched = Some [] \<and>
   fst (clear_file_content (example_env writers (locked_for 5)) watched (init_world example_files)) = None \<and>
   trace (snd (clear_file_content (example_env writers (locked_for 5)) watched (init_world example_files))) =
     [OpenW watched, Sleep 1, OpenW watched, Sleep 1, OpenW watched, Sleep 1, OpenW watched, Sleep 1,
      OpenW watched, Sleep 1] \<and>
   opens (snd (clear_file_content (example_env writers (locked_for 5)) watched (init_world example_files))) = 5 \<and>
   files (snd (clear_file_content (example_env writers (locked_for 5)) watched (init_world example_files))) watched = Some ''secret''"
proof -
  have four: "(\<forall>k<4. open_error (example_env writers (locked_for 4)) (opens (init_world example_files) + k)
                  = Some PermissionError) \<and>
      open_error (example_env writers (locked_for 4)) (opens (init_world example_files) + 4) = None"
    by (simp add: example_env_def locked_for_def init_world_def)
  have five: "\<forall>k<5. open_error (example_env writers (locked_for 5)) (opens (init_world example_files) + k)
                  = Some PermissionError"
    by (simp add: example_env_def locked_for_def init_world_def)
  from four five
    truncate_retry_policy [of "example_env writers (locked_for 4)" "init_world example_files" watched]
    truncate_retry_policy [of "example_env writers (locked_for 5)" "init_world example_files" watched]
  show ?thesis
    by (simp add: init_world_def example_files_def watched_def numeral_eq_Suc)
qed

text \<open>C10, as the code has it: the watched file does not exist when the truncate step
  runs. When the first \<open>open\<close> is granted the step creates the file, empty, with that
  single attempt: write mode creates a missing file. When the first \<open>open\<close> raises
  \<open>FileNotFoundError\<close>, as it does when the directory of the path is gone too, nothing
  catches it: the step raises it after that one attempt and no file is created.\<close>

theorem missing_file_is_created:
  assumes "files w f = None"
  shows "(open_error E (opens w) = None \<longrightarrow>
            fst (clear_file_content E f w) = None \<and>
            files (snd (clear_file_content E f w)) f = Some [] \<and>
            trace (snd (clear_file_content E f w)) =
              trace w @ [OpenW f, Truncate f, Print (''The file is corrupted: '' @ f @ ''.'')]) \<and>
         (open_error E (opens w) = Some FileNotFoundError \<longrightarrow>
            fst (clear_file_content E f w) = Some FileNotFoundError \<and>
            files (snd (clear_file_content E f w)) f = None \<and>
            trace (snd (clear_file_content E f w)) = trace w @ [OpenW f])"
proof (intro conjI impI)
  assume free: "open_error E (opens w) = None"
  note r = attempt_loop_free [OF free, of f 0 "[1 ..< max_retries]"]
  show "fst (clear_file_content E f w) = None"
    using r by (simp add: clear_file_content_def range_first)
  show "files (snd (clear_file_content E f w)) f = Some []"
    using r by (simp add: clear_file_content_def range_first)
  show "trace (snd (clear_file_content E f w)) =
      trace w @ [OpenW f, Truncate f, Print (''The file is corrupted: '' @ f @ ''.'')]"
    using r by (simp add: clear_file_content_def range_first)
next
  assume gone: "open_error E (opens w) = Some FileNotFoundError"
  have ne: "FileNotFoundError \<noteq> PermissionError" by simp
  note r = attempt_loop_raise [OF gone ne, of f 0 "[1 ..< max_retries]"]
  show "fst (clear_file_content E f w) = Some FileNotFoundError"
    using r by (simp add: clear_file_content_def range_first)
  show "files (snd (clear_file_content E f w)) f = None"
    using r assms by (simp add: clear_file_content_def range_first)
  show "trace (snd (clear_file_content E f w)) = trace w @ [OpenW f]"
    using r by (simp add: clear_file_content_def range_first)
qed

theorem missing_file_is_created_witness:
  "fst (clear_file_content (example_env writers (locked_for 0)) watched (init_world Map.empty)) = None \<and>
   files (snd (clear_file_content (example_env writers (locked_for 0)) watched (init_world Map.empty))) watched
     = Some [] \<and>
   trace (snd (clear_file_content (example_env writers (locked_for 0)) watched (init_world Map.empty))) =
     [OpenW watched, Truncate watched, Print ''The file is corrupted: C:/data/app.log.''] \<and>
   fst (clear_file_content (example_env writers directory_gone) watched (init_world Map.empty))
     = Some FileNotFoundError \<and>
   files (snd (clear_file_content (example_env writers directory_gone) watched (init_world Map.empty))) watched
     = None \<and>
   trace (snd (clear_file_content (example_env writers directory_gone) watched (init_world Map.empty))) =
     [OpenW watched]"
  using missing_file_is_created [of "init_world Map.empty" watched "example_env writers (locked_for 0)"]
    missing_file_is_created [of "init_world Map.empty" watched "example_env writers directory_gone"]
  by (simp add: init_world_def example_env_def locked_for_def directory_gone_def watched_def)

text \<open>The watched file is missing and so is its directory: the truncate step reports
  \<open>FileNotFoundError\<close> at its first attempt and there is still no file at the path.\<close>

theorem missing_file_counterexample:
  "files (init_world Map.empty) watched = None \<and>
   fst (clear_file_content (example_env writers directory_gone) watched (init_world Map.empty))
     = Some FileNotFoundError \<and>
   trace (snd (clear_file_content (example_env writers directory_gone) watched (init_world Map.empty))) =
     [OpenW watched] \<and>
   files (snd (clear_file_content (example_env writers directory_gone) watched (init_world Map.empty))) watched
     = None"
  by (simp add: clear_file_content_def max_retries_def upt_conv_Cons init_world_def emit_def Let_def
        example_env_def directory_gone_def)

subsection \<open>The responder\<close>

lemma respond_alt:
  "respond E f pn w =
     (case fst (kill_process_by_name E pn w) of
        None \<Rightarrow> clear_file_content E f (snd (kill_process_by_name E pn w))
      | Some e \<Rightarrow> (Some e, snd (kill_process_by_name E pn w)))"
  by (simp add: respond_def split: prod.splits option.splits)

lemma respond_frame: "IS_RUNNING (snd (respond E f pn w)) = IS_RUNNING w"
  by (simp add: respond_alt clear_file_content_def attempt_loop_frame
        kill_process_by_name_frame split: option.splits)

lemma respond_trace:
  "\<exists>ks ts. trace (snd (respond E f pn w)) = trace w @ ProcessIter # ks @ ts \<and>
     set ks \<subseteq> range Print \<union> range Kill \<and>
     set ts \<subseteq> range Print \<union> range OpenW \<union> range Truncate \<union> range Sleep \<and>
     (fst (respond E f pn w) = None \<longrightarrow> OpenW f \<in> set ts)"
proof -
  let ?k = "kill_process_by_name E pn w"
  obtain ks where ks: "trace (snd ?k) = trace w @ ProcessIter # ks"
      "set ks \<subseteq> range Print \<union> range Kill"
    using kill_loop_trace [of pn "process_iter E" "emit ProcessIter w"]
    by (auto simp: kill_process_by_name_def)
  show ?thesis
  proof (cases "fst ?k")
    case (Some e)
    then have "respond E f pn w = (Some e, snd ?k)"
      by (simp add: respond_alt)
    with ks show ?thesis by (intro exI [of _ ks] exI [of _ "[]"]) simp
  next
    case None
    then have r: "respond E f pn w = clear_file_content E f (snd ?k)"
      by (simp add: respond_alt)
    obtain ts where "trace (snd (clear_file_content E f (snd ?k))) = trace (snd ?k) @ ts"
      "set ts \<subseteq> range Print \<union> range OpenW \<union> range Truncate \<union> range Sleep"
      "OpenW f \<in> set ts"
      using attempt_loop_trace [of E f "[0 ..< max_retries]" "snd ?k"] max_retries_range
      by (auto simp: clear_file_content_def)
    with ks r show ?thesis by (intro exI [of _ ks] exI [of _ ts]) simp
  qed
qed

lemma respond_ok:
  assumes "\<forall>p\<in>set (process_iter E). name p = pn \<longrightarrow> kill_error p = None"
    and "open_error E (opens w) = None"
  shows "fst (respond E f pn w) = None \<and> files (snd (respond E f pn w)) f = Some [] \<and>
     IS_RUNNING (snd (respond E f pn w)) = IS_RUNNING w"
proof -
  let ?k = "kill_process_by_name E pn w"
  have k: "fst ?k = None"
    using kill_loop_all_killed [OF assms(1), of "emit ProcessIter w"]
    by (simp add: kill_process_by_name_def)
  have "open_error E (opens (snd ?k)) = None"
    using assms(2) by (simp add: kill_process_by_name_frame)
  from attempt_loop_free [OF this, of f 0 "[1 ..< max_retries]"] k show ?thesis
    by (simp add: respond_alt clear_file_content_def max_retries_def upt_conv_Cons
          kill_process_by_name_frame)
qed

text \<open>C1, as the code has it: when every termination call on a matching process succeeds
  and every \<open>open\<close> of the (at most five) attempts either succeeds or raises
  \<open>PermissionError\<close>, the responder returns normally, and what it did is, in this order:
  the start of the kill step, one printed line and one termination call per matching
  process in the order of the table, then the first \<open>open\<close> of the watched path, and after
  it no further termination call. (Nothing catches an exception of \<open>proc.kill()\<close>: it
  leaves the responder at once.)\<close>

theorem respond_completes:
  assumes "\<forall>p\<in>set (process_iter E). name p = pn \<longrightarrow> kill_error p = None"
    and "\<forall>k<max_retries. open_error E (opens w + k) = None \<or>
           open_error E (opens w + k) = Some PermissionError"
  shows "fst (respond E f pn w) = None \<and>
     kills (trace (snd (respond E f pn w))) =
       kills (trace w) @ map pid (filter (\<lambda>p. name p = pn) (process_iter E)) \<and>
     (\<exists>post. trace (snd (respond E f pn w)) =
        trace w @ ProcessIter #
          concat (map (\<lambda>p. [Print (''Terminating process '' @ pn @ '' (PID: '' @
                                    str_nat (pid p) @ '')''), Kill (pid p)])
                     (filter (\<lambda>p. name p = pn) (process_iter E))) @
          OpenW f # post \<and>
        kills post = [])"
proof -
  let ?k = "kill_process_by_name E pn w"
  let ?ks = "concat (map (\<lambda>p. [Print (''Terminating process '' @ pn @ '' (PID: '' @
                                    str_nat (pid p) @ '')''), Kill (pid p)])
                     (filter (\<lambda>p. name p = pn) (process_iter E)))"
  have k: "fst ?k = None"
    "kills (trace (snd ?k)) = kills (trace w) @ map pid (filter (\<lambda>p. name p = pn) (process_iter E))"
    using kill_loop_all_killed [OF assms(1), of "emit ProcessIter w"]
    by (simp_all add: kill_process_by_name_def kills_append)
  have ks: "trace (snd ?k) = trace w @ ProcessIter # ?ks"
    using kill_loop_all_killed_trace [OF assms(1), of "emit ProcessIter w"]
    by (simp add: kill_process_by_name_def)
  from k(1) have r: "respond E f pn w = clear_file_content E f (snd ?k)"
    by (simp add: respond_alt)
  have "\<forall>k<length [0 ..< max_retries]. open_error E (opens (snd ?k) + k) = None \<or>
           open_error E (opens (snd ?k) + k) = Some PermissionError"
    using assms(2) by (simp add: kill_process_by_name_frame)
  then have ok: "fst (clear_file_content E f (snd ?k)) = None"
    unfolding clear_file_content_def by (rule attempt_loop_no_raise)
  obtain post where post: "trace (snd (clear_file_content E f (snd ?k))) = trace (snd ?k) @ OpenW f # post"
    "\<forall>n. Kill n \<notin> set post"
    using attempt_loop_first_open [of E f 0 "[1 ..< max_retries]" "snd ?k"]
    by (auto simp: clear_file_content_def range_first)
  from post(2) have none: "kills post = []" by (rule kills_none)
  have 1: "fst (respond E f pn w) = None" using ok r by simp
  have 2: "kills (trace (snd (respond E f pn w))) =
       kills (trace w) @ map pid (filter (\<lambda>p. name p = pn) (process_iter E))"
    using r post(1) k(2) none by (simp add: kills_append)
  have "trace (snd (respond E f pn w)) = trace w @ ProcessIter # ?ks @ OpenW f # post"
    using r post(1) ks by simp
  with none have 3: "\<exists>post. trace (snd (respond E f pn w)) = trace w @ ProcessIter # ?ks @ OpenW f # post \<and>
        kills post = []"
    by blast
  from 1 2 3 show ?thesis by (intro conjI)
qed

theorem respond_completes_witness:
  "fst (respond (example_env writers (locked_for 2)) watched ''writer.exe'' (init_world example_files)) = None \<and>
   kills (trace (snd (respond (example_env writers (locked_for 2)) watched ''writer.exe''
      (init_world example_files)))) = [812, 1300] \<and>
   (\<exists>post. trace (snd (respond (example_env writers (locked_for 2)) watched ''writer.exe''
      (init_world example_files))) =
        ProcessIter #
        [Print ''Terminating process writer.exe (PID: 812)'', Kill 812,
         Print ''Terminating process writer.exe (PID: 1300)'', Kill 1300] @
        OpenW watched # post \<and>
      kills post = [])"
  using respond_completes [of "example_env writers (locked_for 2)" "''writer.exe''"
      "init_world example_files" watched]
  by (simp add: example_env_def writers_def locked_for_def init_world_def str_nat.simps)

text \<open>The kill of the first match raises \<open>AccessDenied\<close>: the responder raises it, the
  second match is not killed, the file is never opened and keeps its content. And when
  \<open>open\<close> raises \<open>FileNotFoundError\<close> (the directory is gone), the responder raises that.\<close>

theorem respond_counterexample:
  "fst (respond (example_env protected_writers (locked_for 0)) watched ''writer.exe''
      (init_world example_files)) = Some AccessDenied \<and>
   trace (snd (respond (example_env protected_writers (locked_for 0)) watched ''writer.exe''
      (init_world example_files))) =
     [ProcessIter, Print ''Terminating process writer.exe (PID: 812)'', Kill 812] \<and>
   files (snd (respond (example_env protected_writers (locked_for 0)) watched ''writer.exe''
      (init_world example_files))) watched = Some ''secret'' \<and>
   fst (respond (example_env writers directory_gone) watched ''writer.exe''
      (init_world example_files)) = Some FileNotFoundError"
  by (simp add: run_defs example_defs directory_gone_def)

subsection \<open>The monitor thread\<close>

lemma for_results_alt:
  "for_results E f pn ((action, filename) # rest) w =
     (if filename = basename E f then
        (case fst (respond E f pn (emit (Print (''Detected activity on '' @ f)) w)) of
           None \<Rightarrow> (None, emit (SetRunning False)
                     ((snd (respond E f pn (emit (Print (''Detected activity on '' @ f)) w)))
                        \<lparr>IS_RUNNING := False\<rparr>))
         | Some e \<Rightarrow> (Some e, snd (respond E f pn (emit (Print (''Detected activity on '' @ f)) w))))
      else for_results E f pn rest w)"
  by (simp split: prod.splits option.splits)

lemma while_running_alt:
  "while_running E f pn (b # bs) w =
     (if IS_RUNNING w then
        (case fst (for_results E f pn b (emit ReadDirectoryChangesW w)) of
           None \<Rightarrow> while_running E f pn bs (snd (for_results E f pn b (emit ReadDirectoryChangesW w)))
         | Some e \<Rightarrow> (Raised e, snd (for_results E f pn b (emit ReadDirectoryChangesW w))))
      else (Returned, w))"
  by (simp split: prod.splits option.splits)

lemma while_running_stopped:
  "\<not> IS_RUNNING w \<Longrightarrow> while_running E f pn bs w = (Returned, w)"
  by (cases bs) simp_all

lemma for_results_shape:
  assumes "IS_RUNNING w"
  shows "for_results E f pn b w = (None, w) \<or>
     (\<exists>rest. trace (snd (for_results E f pn b w)) = trace w @ rest \<and>
        run_shape f rest (IS_RUNNING (snd (for_results E f pn b w))) \<and>
        (fst (for_results E f pn b w) = None \<longrightarrow> \<not> IS_RUNNING (snd (for_results E f pn b w))))"
proof (induction b)
  case Nil
  show ?case by simp
next
  case (Cons ev b)
  obtain action filename where ev: "ev = (action, filename)" by (cases ev)
  show ?case
  proof (cases "filename = basename E f")
    case False
    with Cons ev show ?thesis by simp
  next
    case True
    let ?d = "''Detected activity on '' @ f"
    let ?r = "respond E f pn (emit (Print ?d) w)"
    obtain ks ts where sh: "trace (snd ?r) = trace w @ Print ?d # ProcessIter # ks @ ts"
      "set ks \<subseteq> range Print \<union> range Kill"
      "set ts \<subseteq> range Print \<union> range OpenW \<union> range Truncate \<union> range Sleep"
      "fst ?r = None \<longrightarrow> OpenW f \<in> set ts"
      using respond_trace [of E f pn "emit (Print ?d) w"] by auto
    have fr: "IS_RUNNING (snd ?r)"
      using assms by (simp add: respond_frame)
    show ?thesis
    proof (cases "fst ?r")
      case (Some e)
      then have "for_results E f pn (ev # b) w = (Some e, snd ?r)"
        using True ev by (simp only: for_results_alt) simp
      moreover have "run_shape f (Print ?d # ProcessIter # ks @ ts) True"
        unfolding run_shape_def using sh(2,3)
        by (intro disjI2 exI [of _ ?d] exI [of _ ks] exI [of _ ts] exI [of _ "[]"]) simp
      ultimately show ?thesis using sh(1) fr by simp
    next
      case None
      then have "for_results E f pn (ev # b) w =
          (None, emit (SetRunning False) ((snd ?r)\<lparr>IS_RUNNING := False\<rparr>))"
        using True ev by (simp only: for_results_alt) simp
      moreover have "run_shape f (Print ?d # ProcessIter # ks @ ts @ [SetRunning False]) False"
        unfolding run_shape_def using sh(2,3,4) None
        by (intro disjI2 exI [of _ ?d] exI [of _ ks] exI [of _ ts] exI [of _ "[SetRunning False]"]) simp
      ultimately show ?thesis using sh(1) by simp
    qed
  qed
qed

lemma while_running_shape:
  assumes "IS_RUNNING w"
  shows "\<exists>rs rest. trace (snd (while_running E f pn bs w)) = trace w @ rs @ rest \<and>
     set rs \<subseteq> {ReadDirectoryChangesW} \<and>
     run_shape f rest (IS_RUNNING (snd (while_running E f pn bs w)))"
  using assms
proof (induction bs arbitrary: w)
  case Nil
  then show ?case
    by (intro exI [of _ "[ReadDirectoryChangesW]"] exI [of _ "[]"]) (simp add: run_shape_def)
next
  case (Cons b bs)
  let ?w1 = "emit ReadDirectoryChangesW w"
  let ?r = "for_results E f pn b ?w1"
  have run1: "IS_RUNNING ?w1" using Cons.prems by simp
  from for_results_shape [OF run1, of E f pn b]
  show ?case
  proof (elim disjE exE conjE)
    assume same: "?r = (None, ?w1)"
    then have eq: "while_running E f pn (b # bs) w = while_running E f pn bs ?w1"
      using Cons.prems by (simp only: while_running_alt) simp
    from Cons.IH [OF run1] obtain rs rest where
      "trace (snd (while_running E f pn bs ?w1)) = trace ?w1 @ rs @ rest"
      "set rs \<subseteq> {ReadDirectoryChangesW}"
      "run_shape f rest (IS_RUNNING (snd (while_running E f pn bs ?w1)))"
      by (elim exE conjE)
    with eq show ?thesis
      by (intro exI [of _ "ReadDirectoryChangesW # rs"] exI [of _ rest]) simp
  next
    fix rest
    assume rest: "trace (snd ?r) = trace ?w1 @ rest"
      "run_shape f rest (IS_RUNNING (snd ?r))" "fst ?r = None \<longrightarrow> \<not> IS_RUNNING (snd ?r)"
    have "snd (while_running E f pn (b # bs) w) = snd ?r"
    proof (cases "fst ?r")
      case None
      with rest(3) show ?thesis using Cons.prems
        by (simp only: while_running_alt) (simp add: while_running_stopped)
    next
      case (Some e)
      then show ?thesis using Cons.prems by (simp only: while_running_alt) simp
    qed
    with rest show ?thesis
      by (intro exI [of _ "[ReadDirectoryChangesW]"] exI [of _ rest]) simp
  qed
qed

lemma monitor_file_shape:
  "\<exists>as rest. trace (snd (monitor_file E f pn bs (init_world fs))) = as @ rest \<and>
     set as \<subseteq> {CreateFile (dirname E f), ReadDirectoryChangesW} \<and>
     run_shape f rest (IS_RUNNING (snd (monitor_file E f pn bs (init_world fs))))"
proof (cases "create_error E")
  case (Some e)
  then show ?thesis
    by (intro exI [of _ "[CreateFile (dirname E f)]"] exI [of _ "[]"])
      (simp add: monitor_file_def init_world_def run_shape_def)
next
  case None
  let ?w1 = "emit (CreateFile (dirname E f)) (init_world fs)"
  have "IS_RUNNING ?w1" by (simp add: init_world_def)
  from while_running_shape [OF this, of E f pn bs] obtain rs rest where
    "trace (snd (while_running E f pn bs ?w1)) = trace ?w1 @ rs @ rest"
    "set rs \<subseteq> {ReadDirectoryChangesW}"
    "run_shape f rest (IS_RUNNING (snd (while_running E f pn bs ?w1)))"
    by (elim exE conjE)
  with None show ?thesis
    by (intro exI [of _ "CreateFile (dirname E f) # rs"] exI [of _ rest])
      (auto simp: monitor_file_def init_world_def)
qed

lemma before_first:
  "xs @ a # ys = pre @ b # post \<Longrightarrow> b \<notin> set xs \<Longrightarrow> a \<noteq> b \<Longrightarrow> a \<in> set pre"
proof (induction xs arbitrary: pre)
  case Nil
  then show ?case by (cases pre) auto
next
  case (Cons x xs)
  then show ?case by (cases pre) auto
qed

lemma split_after:
  "xs @ ys = pre @ b # post \<Longrightarrow> b \<notin> set xs \<Longrightarrow> \<exists>pre'. pre = xs @ pre' \<and> ys = pre' @ b # post"
proof (induction xs arbitrary: pre)
  case Nil
  then show ?case by simp
next
  case (Cons x xs)
  then show ?case by (cases pre) auto
qed

lemma last_unique:
  "xs @ [b] = pre @ b # post \<Longrightarrow> b \<notin> set xs \<Longrightarrow> pre = xs \<and> post = []"
proof (induction xs arbitrary: pre)
  case Nil
  then show ?case by (cases pre) auto
next
  case (Cons x xs)
  then show ?case by (cases pre) auto
qed

text \<open>C2: in every run of the monitor thread, whatever fails, every termination call
  comes after the start of the kill step; every \<open>open\<close> of the truncate step comes after
  the start of the kill step and no termination call comes after it; the assignment
  \<open>IS_RUNNING = False\<close> is the last event, after the start of the kill step and an \<open>open\<close>
  of the watched path that follows it; and the flag is false at the end only if that
  assignment was made.\<close>

theorem kill_then_truncate_then_flag:
  "(\<forall>pre n post. trace (snd (monitor_file E f pn batches (init_world fs))) = pre @ Kill n # post
       \<longrightarrow> ProcessIter \<in> set pre) \<and>
   (\<forall>pre p post. trace (snd (monitor_file E f pn batches (init_world fs))) = pre @ OpenW p # post
       \<longrightarrow> ProcessIter \<in> set pre \<and> kills post = []) \<and>
   (\<forall>pre post. trace (snd (monitor_file E f pn batches (init_world fs))) = pre @ SetRunning False # post
       \<longrightarrow> post = [] \<and> (\<exists>a b c. pre = a @ ProcessIter # b @ OpenW f # c)) \<and>
   (\<not> IS_RUNNING (snd (monitor_file E f pn batches (init_world fs)))
       \<longrightarrow> SetRunning False \<in> set (trace (snd (monitor_file E f pn batches (init_world fs)))))"
proof -
  let ?w = "snd (monitor_file E f pn batches (init_world fs))"
  obtain as rest where tr: "trace ?w = as @ rest"
    and as: "set as \<subseteq> {CreateFile (dirname E f), ReadDirectoryChangesW}"
    and sh: "run_shape f rest (IS_RUNNING ?w)"
    using monitor_file_shape [of E f pn batches fs] by (elim exE conjE)
  from sh consider
      (idle) "rest = []" "IS_RUNNING ?w"
    | (raised) d ks ts where "rest = Print d # ProcessIter # ks @ ts" "IS_RUNNING ?w"
        "set ks \<subseteq> range Print \<union> range Kill"
        "set ts \<subseteq> range Print \<union> range OpenW \<union> range Truncate \<union> range Sleep"
    | (cleared) d ks ts where "rest = Print d # ProcessIter # ks @ ts @ [SetRunning False]"
        "\<not> IS_RUNNING ?w" "OpenW f \<in> set ts"
        "set ks \<subseteq> range Print \<union> range Kill"
        "set ts \<subseteq> range Print \<union> range OpenW \<union> range Truncate \<union> range Sleep"
    unfolding run_shape_def by auto
  then show ?thesis
  proof cases
    case idle
    have "\<And>n. Kill n \<notin> set (trace ?w)" and "\<And>p. OpenW p \<notin> set (trace ?w)"
      and "SetRunning False \<notin> set (trace ?w)"
      using tr as idle by auto
    then have "\<And>pre n post. trace ?w \<noteq> pre @ Kill n # post"
      and "\<And>pre p post. trace ?w \<noteq> pre @ OpenW p # post"
      and "\<And>pre post. trace ?w \<noteq> pre @ SetRunning False # post"
      by (metis in_set_conv_decomp)+
    with idle show ?thesis by simp
  next
    case raised
    have kill_first: "ProcessIter \<in> set pre" if "trace ?w = pre @ Kill n # post" for pre n post
    proof -
      have "(as @ [Print d]) @ ProcessIter # (ks @ ts) = pre @ Kill n # post"
        using that tr raised(1) by simp
      moreover have "Kill n \<notin> set (as @ [Print d])" using as by auto
      ultimately show ?thesis by (rule before_first) simp
    qed
    have open_after: "ProcessIter \<in> set pre \<and> kills post = []"
      if "trace ?w = pre @ OpenW p # post" for pre p post
    proof -
      have eq: "(as @ Print d # ProcessIter # ks) @ ts = pre @ OpenW p # post"
        using that tr raised(1) by simp
      have no: "OpenW p \<notin> set (as @ Print d # ProcessIter # ks)"
        using as raised(3) by auto
      from split_after [OF eq no] obtain pre' where
        pre: "pre = (as @ Print d # ProcessIter # ks) @ pre'" and ts: "ts = pre' @ OpenW p # post"
        by blast
      from ts raised(4) have "\<forall>n. Kill n \<notin> set post" by auto
      then have "kills post = []" by (rule kills_none)
      with pre show ?thesis by simp
    qed
    have "SetRunning False \<notin> set (trace ?w)"
      using tr as raised by auto
    then have "\<And>pre post. trace ?w \<noteq> pre @ SetRunning False # post"
      by (metis in_set_conv_decomp)
    with kill_first open_after raised(2) show ?thesis by simp
  next
    case cleared
    have kill_first: "ProcessIter \<in> set pre" if "trace ?w = pre @ Kill n # post" for pre n post
    proof -
      have "(as @ [Print d]) @ ProcessIter # (ks @ ts @ [SetRunning False]) = pre @ Kill n # post"
        using that tr cleared(1) by simp
      moreover have "Kill n \<notin> set (as @ [Print d])" using as by auto
      ultimately show ?thesis by (rule before_first) simp
    qed
    have open_after: "ProcessIter \<in> set pre \<and> kills post = []"
      if "trace ?w = pre @ OpenW p # post" for pre p post
    proof -
      have eq: "(as @ Print d # ProcessIter # ks) @ (ts @ [SetRunning False]) = pre @ OpenW p # post"
        using that tr cleared(1) by simp
      have no: "OpenW p \<notin> set (as @ Print d # ProcessIter # ks)"
        using as cleared(4) by auto
      from split_after [OF eq no] obtain pre' where
        pre: "pre = (as @ Print d # ProcessIter # ks) @ pre'"
        and ts: "ts @ [SetRunning False] = pre' @ OpenW p # post"
        by blast
      have "set post \<subseteq> set (ts @ [SetRunning False])" unfolding ts by auto
      with cleared(5) have "\<forall>n. Kill n \<notin> set post" by auto
      then have "kills post = []" by (rule kills_none)
      with pre show ?thesis by simp
    qed
    have flag_last: "post = [] \<and> (\<exists>a b c. pre = a @ ProcessIter # b @ OpenW f # c)"
      if "trace ?w = pre @ SetRunning False # post" for pre post
    proof -
      have "(as @ Print d # ProcessIter # ks @ ts) @ [SetRunning False] = pre @ SetRunning False # post"
        using that tr cleared(1) by simp
      moreover have "SetRunning False \<notin> set (as @ Print d # ProcessIter # ks @ ts)"
        using as cleared(4,5) by auto
      ultimately have pre: "pre = as @ Print d # ProcessIter # ks @ ts \<and> post = []"
        by (rule last_unique)
      from cleared(3) obtain t1 t2 where "ts = t1 @ OpenW f # t2"
        by (auto dest: split_list)
      with pre have "pre = (as @ [Print d]) @ ProcessIter # (ks @ t1) @ OpenW f # t2" by simp
      then have "\<exists>a b c. pre = a @ ProcessIter # b @ OpenW f # c" by blast
      with pre show ?thesis by simp
    qed
    have "SetRunning False \<in> set (trace ?w)" using tr cleared(1) by simp
    with kill_first open_after flag_last show ?thesis by simp
  qed
qed

theorem kill_then_truncate_then_flag_witness:
  "trace (snd (monitor_file (example_env writers (locked_for 1)) watched ''writer.exe''
      [[(3, ''other.txt'')], [(3, ''app.log'')]] (init_world example_files))) =
     [CreateFile ''C:/data'', ReadDirectoryChangesW, ReadDirectoryChangesW,
      Print ''Detected activity on C:/data/app.log'',
      ProcessIter, Print ''Terminating process writer.exe (PID: 812)'', Kill 812,
      Print ''Terminating process writer.exe (PID: 1300)'', Kill 1300,
      OpenW ''C:/data/app.log'', Sleep 1, OpenW ''C:/data/app.log'', Truncate ''C:/data/app.log'',
      Print ''The file is corrupted: C:/data/app.log.'', SetRunning False] \<and>
   ProcessIter \<in> set [CreateFile ''C:/data'', ReadDirectoryChangesW, ReadDirectoryChangesW,
      Print ''Detected activity on C:/data/app.log'',
      ProcessIter, Print ''Terminating process writer.exe (PID: 812)''] \<and>
   ProcessIter \<in> set [CreateFile ''C:/data'', ReadDirectoryChangesW, ReadDirectoryChangesW,
      Print ''Detected activity on C:/data/app.log'',
      ProcessIter, Print ''Terminating process writer.exe (PID: 812)'', Kill 812,
      Print ''Terminating process writer.exe (PID: 1300)'', Kill 1300] \<and>
   kills [Sleep 1, OpenW ''C:/data/app.log'', Truncate ''C:/data/app.log'',
      Print ''The file is corrupted: C:/data/app.log.'', SetRunning False] = [] \<and>
   (\<exists>a b c. [CreateFile ''C:/data'', ReadDirectoryChangesW, ReadDirectoryChangesW,
      Print ''Detected activity on C:/data/app.log'',
      ProcessIter, Print ''Terminating process writer.exe (PID: 812)'', Kill 812,
      Print ''Terminating process writer.exe (PID: 1300)'', Kill 1300,
      OpenW ''C:/data/app.log'', Sleep 1, OpenW ''C:/data/app.log'', Truncate ''C:/data/app.log'',
      Print ''The file is corrupted: C:/data/app.log.''] = a @ ProcessIter # b @ OpenW watched # c) \<and>
   SetRunning False \<in> set (trace (snd (monitor_file (example_env writers (locked_for 1)) watched
      ''writer.exe'' [[(3, ''other.txt'')], [(3, ''app.log'')]] (init_world example_files))))"
proof -
  let ?w = "snd (monitor_file (example_env writers (locked_for 1)) watched ''writer.exe''
      [[(3, ''other.txt'')], [(3, ''app.log'')]] (init_world example_files))"
  let ?j = "[CreateFile ''C:/data'', ReadDirectoryChangesW, ReadDirectoryChangesW,
      Print ''Detected activity on C:/data/app.log'',
      ProcessIter, Print ''Terminating process writer.exe (PID: 812)'']"
  let ?k = "[CreateFile ''C:/data'', ReadDirectoryChangesW, ReadDirectoryChangesW,
      Print ''Detected activity on C:/data/app.log'',
      ProcessIter, Print ''Terminating process writer.exe (PID: 812)'', Kill 812,
      Print ''Terminating process writer.exe (PID: 1300)'', Kill 1300]"
  let ?t = "[Sleep 1, OpenW ''C:/data/app.log'', Truncate ''C:/data/app.log'',
      Print ''The file is corrupted: C:/data/app.log.'']"
  note T = kill_then_truncate_then_flag [of "example_env writers (locked_for 1)" watched
      "''writer.exe''" "[[(3, ''other.txt'')], [(3, ''app.log'')]]" example_files]
  have tr: "trace ?w = ?k @ OpenW ''C:/data/app.log'' # ?t @ [SetRunning False]"
    by (simp add: run_defs example_defs)
  have stopped: "\<not> IS_RUNNING ?w"
    by (simp add: run_defs example_defs)
  have "trace ?w = ?j @ Kill 812 # ([Print ''Terminating process writer.exe (PID: 1300)'', Kill 1300,
      OpenW ''C:/data/app.log''] @ ?t @ [SetRunning False])"
    using tr by simp
  from T [THEN conjunct1, rule_format, OF this]
  have 0: "ProcessIter \<in> set ?j" .
  have "trace ?w = ?k @ OpenW ''C:/data/app.log'' # (?t @ [SetRunning False])"
    using tr by simp
  from T [THEN conjunct2, THEN conjunct1, rule_format, OF this]
  have 1: "ProcessIter \<in> set ?k \<and> kills (?t @ [SetRunning False]) = []" .
  have "trace ?w = (?k @ OpenW ''C:/data/app.log'' # ?t) @ SetRunning False # []"
    using tr by simp
  from T [THEN conjunct2, THEN conjunct2, THEN conjunct1, rule_format, OF this]
  have 2: "\<exists>a b c. ?k @ OpenW ''C:/data/app.log'' # ?t = a @ ProcessIter # b @ OpenW watched # c"
    by simp
  from T [THEN conjunct2, THEN conjunct2, THEN conjunct2, rule_format, OF stopped]
  have 3: "SetRunning False \<in> set (trace ?w)" .
  from tr 0 1 2 3 show ?thesis by simp
qed

text \<open>C3: for every sequence of notification batches the kill step is started at most
  once and \<open>IS_RUNNING\<close> is assigned \<open>False\<close> at most once and never \<open>True\<close>, also when
  several events of one batch carry the watched name.\<close>

theorem responder_runs_at_most_once:
  "count_list (trace (snd (monitor_file E f pn batches (init_world fs)))) ProcessIter \<le> 1 \<and>
   count_list (trace (snd (monitor_file E f pn batches (init_world fs)))) (SetRunning False) \<le> 1 \<and>
   SetRunning True \<notin> set (trace (snd (monitor_file E f pn batches (init_world fs))))"
proof -
  let ?w = "snd (monitor_file E f pn batches (init_world fs))"
  obtain as rest where tr: "trace ?w = as @ rest"
    and as: "set as \<subseteq> {CreateFile (dirname E f), ReadDirectoryChangesW}"
    and sh: "run_shape f rest (IS_RUNNING ?w)"
    using monitor_file_shape [of E f pn batches fs] by (elim exE conjE)
  have as0: "count_list as ProcessIter = 0" "count_list as (SetRunning False) = 0"
    "SetRunning True \<notin> set as"
    using as by (auto simp: count_list_0_iff)
  from sh consider "rest = []"
    | d ks ts ss where "rest = Print d # ProcessIter # ks @ ts @ ss"
        "set ks \<subseteq> range Print \<union> range Kill"
        "set ts \<subseteq> range Print \<union> range OpenW \<union> range Truncate \<union> range Sleep"
        "ss = [] \<or> ss = [SetRunning False]"
    unfolding run_shape_def by auto
  then show ?thesis
  proof cases
    case 1
    with tr as0 show ?thesis by simp
  next
    case 2
    have "count_list ks ProcessIter = 0" "count_list ks (SetRunning False) = 0"
      "SetRunning True \<notin> set ks"
      using 2(2) by (auto simp: count_list_0_iff)
    moreover have "count_list ts ProcessIter = 0" "count_list ts (SetRunning False) = 0"
      "SetRunning True \<notin> set ts"
      using 2(3) by (auto simp: count_list_0_iff)
    ultimately show ?thesis using tr as0 2(1,4) by auto
  qed
qed

theorem responder_runs_at_most_once_witness:
  "trace (snd (monitor_file (example_env writers (locked_for 0)) watched ''writer.exe''
      [[(3, ''app.log''), (3, ''app.log'')], [(3, ''app.log'')]] (init_world example_files))) =
     [CreateFile ''C:/data'', ReadDirectoryChangesW, Print ''Detected activity on C:/data/app.log'',
      ProcessIter, Print ''Terminating process writer.exe (PID: 812)'', Kill 812,
      Print ''Terminating process writer.exe (PID: 1300)'', Kill 1300,
      OpenW ''C:/data/app.log'', Truncate ''C:/data/app.log'',
      Print ''The file is corrupted: C:/data/app.log.'', SetRunning False] \<and>
   count_list (trace (snd (monitor_file (example_env writers (locked_for 0)) watched ''writer.exe''
      [[(3, ''app.log''), (3, ''app.log'')], [(3, ''app.log'')]] (init_world example_files))))
      ProcessIter \<le> 1 \<and>
   count_list (trace (snd (monitor_file (example_env writers (locked_for 0)) watched ''writer.exe''
      [[(3, ''app.log''), (3, ''app.log'')], [(3, ''app.log'')]] (init_world example_files))))
      (SetRunning False) \<le> 1"
proof -
  have "trace (snd (monitor_file (example_env writers (locked_for 0)) watched ''writer.exe''
      [[(3, ''app.log''), (3, ''app.log'')], [(3, ''app.log'')]] (init_world example_files))) =
     [CreateFile ''C:/data'', ReadDirectoryChangesW, Print ''Detected activity on C:/data/app.log'',
      ProcessIter, Print ''Terminating process writer.exe (PID: 812)'', Kill 812,
      Print ''Terminating process writer.exe (PID: 1300)'', Kill 1300,
      OpenW ''C:/data/app.log'', Truncate ''C:/data/app.log'',
      Print ''The file is corrupted: C:/data/app.log.'', SetRunning False]"
    by (simp add: run_defs example_defs)
  with responder_runs_at_most_once [of "example_env writers (locked_for 0)" watched "''writer.exe''"
      "[[(3, ''app.log''), (3, ''app.log'')], [(3, ''app.log'')]]" example_files]
  show ?thesis by simp
qed

lemma for_results_skip:
  "\<forall>ev\<in>set b. snd ev \<noteq> basename E f \<Longrightarrow> for_results E f pn b w = (None, w)"
  by (induction b) auto

lemma while_running_skip:
  "\<forall>b\<in>set batches. \<forall>ev\<in>set b. snd ev \<noteq> basename E f \<Longrightarrow> IS_RUNNING w \<Longrightarrow>
   fst (while_running E f pn batches w) = Blocked \<and>
   trace (snd (while_running E f pn batches w)) =
     trace w @ replicate (Suc (length batches)) ReadDirectoryChangesW \<and>
   IS_RUNNING (snd (while_running E f pn batches w)) \<and>
   files (snd (while_running E f pn batches w)) = files w"
proof (induction batches arbitrary: w)
  case Nil
  then show ?case by simp
next
  case (Cons b batches)
  have "for_results E f pn b (emit ReadDirectoryChangesW w) = (None, emit ReadDirectoryChangesW w)"
    using Cons.prems(1) by (simp add: for_results_skip)
  moreover have "fst (while_running E f pn batches (emit ReadDirectoryChangesW w)) = Blocked \<and>
   trace (snd (while_running E f pn batches (emit ReadDirectoryChangesW w))) =
     trace (emit ReadDirectoryChangesW w) @ replicate (Suc (length batches)) ReadDirectoryChangesW \<and>
   IS_RUNNING (snd (while_running E f pn batches (emit ReadDirectoryChangesW w))) \<and>
   files (snd (while_running E f pn batches (emit ReadDirectoryChangesW w))) =
     files (emit ReadDirectoryChangesW w)"
    using Cons.prems by (intro Cons.IH) simp_all
  ultimately show ?case using Cons.prems(2)
    by (simp only: while_running_alt) (simp add: replicate_append_same)
qed

lemma for_results_fires:
  assumes "\<forall>p\<in>set (process_iter E). name p = pn \<longrightarrow> kill_error p = None"
    and "open_error E (opens w) = None"
  shows "ev \<in> set b \<Longrightarrow> snd ev = basename E f \<Longrightarrow>
     fst (for_results E f pn b w) = None \<and> \<not> IS_RUNNING (snd (for_results E f pn b w)) \<and>
     files (snd (for_results E f pn b w)) f = Some []"
proof (induction b)
  case Nil
  then show ?case by simp
next
  case (Cons x b)
  obtain action filename where x: "x = (action, filename)" by (cases x)
  show ?case
  proof (cases "filename = basename E f")
    case True
    have "open_error E (opens (emit (Print (''Detected activity on '' @ f)) w)) = None"
      using assms(2) by simp
    from respond_ok [OF assms(1) this, of f] True x show ?thesis
      by (simp only: for_results_alt) simp
  next
    case False
    with Cons x show ?thesis by auto
  qed
qed

lemma while_running_fires:
  assumes "\<forall>p\<in>set (process_iter E). name p = pn \<longrightarrow> kill_error p = None"
  shows "b \<in> set batches \<Longrightarrow> ev \<in> set b \<Longrightarrow> snd ev = basename E f \<Longrightarrow>
     open_error E (opens w) = None \<Longrightarrow> IS_RUNNING w \<Longrightarrow>
     fst (while_running E f pn batches w) = Returned \<and>
     files (snd (while_running E f pn batches w)) f = Some []"
proof (induction batches arbitrary: w)
  case Nil
  then show ?case by simp
next
  case (Cons b0 batches)
  let ?w1 = "emit ReadDirectoryChangesW w"
  have free: "open_error E (opens ?w1) = None" using Cons.prems(4) by simp
  show ?case
  proof (cases "\<exists>ev0\<in>set b0. snd ev0 = basename E f")
    case True
    then obtain ev0 where "ev0 \<in> set b0" "snd ev0 = basename E f" by blast
    from for_results_fires [OF assms free this] Cons.prems(5) show ?thesis
      by (simp only: while_running_alt) (simp add: while_running_stopped)
  next
    case False
    then have skip: "for_results E f pn b0 ?w1 = (None, ?w1)"
      by (simp add: for_results_skip)
    from False Cons.prems(1,2,3) have "b \<in> set batches" by auto
    from Cons.IH [OF this Cons.prems(2,3) free] Cons.prems(5) skip show ?thesis
      by (simp only: while_running_alt) simp
  qed
qed

text \<open>C5, as the code has it: the watched file exists with non-empty content, the first
  \<open>open\<close> is granted (no lock contention), the directory handle opens, some delivered event
  carries the base name of the watched path, and every termination call on a matching
  process succeeds. Then the monitor returns and the file exists with length 0. (The
  truncate step runs only after the kill step has returned normally.)\<close>

theorem watched_file_is_truncated:
  assumes "fs f = Some content" and "content \<noteq> []"
    and "open_error E 0 = None"
    and "create_error E = None"
    and "b \<in> set batches" and "ev \<in> set b" and "snd ev = basename E f"
    and "\<forall>p\<in>set (process_iter E). name p = pn \<longrightarrow> kill_error p = None"
  shows "fst (monitor_file E f pn batches (init_world fs)) = Returned \<and>
     files (snd (monitor_file E f pn batches (init_world fs))) f = Some []"
proof -
  let ?w1 = "emit (CreateFile (dirname E f)) (init_world fs)"
  have "open_error E (opens ?w1) = None" "IS_RUNNING ?w1"
    using assms(3) by (simp_all add: init_world_def)
  from while_running_fires [OF assms(8,5,6,7) this] assms(4) show ?thesis
    by (simp add: monitor_file_def)
qed

theorem watched_file_is_truncated_witness:
  "fst (monitor_file (example_env writers (locked_for 0)) watched ''writer.exe''
      [[(3, ''other.txt'')], [(3, ''app.log'')]] (init_world example_files)) = Returned \<and>
   files (snd (monitor_file (example_env writers (locked_for 0)) watched ''writer.exe''
      [[(3, ''other.txt'')], [(3, ''app.log'')]] (init_world example_files))) watched = Some []"
  using watched_file_is_truncated [of example_files watched "''secret''"
      "example_env writers (locked_for 0)" "[(3, ''app.log'')]"
      "[[(3, ''other.txt'')], [(3, ''app.log'')]]" "(3, ''app.log'')" "''writer.exe''"]
  by (simp add: example_defs)

text \<open>The file exists with content, nothing locks it and the event matches, but the kill
  of a matching process raises \<open>AccessDenied\<close>: the monitor thread dies of it and the file
  keeps its content.\<close>

theorem watched_file_counterexample:
  "example_files watched = Some ''secret'' \<and>
   open_error (example_env protected_writers (locked_for 0)) 0 = None \<and>
   basename (example_env protected_writers (locked_for 0)) watched = ''app.log'' \<and>
   fst (monitor_file (example_env protected_writers (locked_for 0)) watched ''writer.exe''
      [[(3, ''app.log'')]] (init_world example_files)) = Raised AccessDenied \<and>
   files (snd (monitor_file (example_env protected_writers (locked_for 0)) watched ''writer.exe''
      [[(3, ''app.log'')]] (init_world example_files))) watched = Some ''secret''"
  by (simp add: run_defs example_defs)

text \<open>C7: when every delivered event carries a file name other than the base name of the
  watched path, the responder is never run: the monitor thread does nothing but open the
  directory handle and receive, the flag stays true and no file changes.\<close>

theorem other_names_never_trigger:
  assumes "\<forall>b\<in>set batches. \<forall>ev\<in>set b. snd ev \<noteq> basename E f"
  shows "fst (monitor_file E f pn batches (init_world fs)) =
           (case create_error E of None \<Rightarrow> Blocked | Some e \<Rightarrow> Raised e) \<and>
         set (trace (snd (monitor_file E f pn batches (init_world fs)))) \<subseteq>
           {CreateFile (dirname E f), ReadDirectoryChangesW} \<and>
         IS_RUNNING (snd (monitor_file E f pn batches (init_world fs))) \<and>
         files (snd (monitor_file E f pn batches (init_world fs))) = fs"
proof (cases "create_error E")
  case (Some e)
  then show ?thesis by (simp add: monitor_file_def init_world_def)
next
  case None
  have "IS_RUNNING (emit (CreateFile (dirname E f)) (init_world fs))"
    by (simp add: init_world_def)
  from while_running_skip [OF assms this, of pn] None show ?thesis
    by (auto simp: monitor_file_def init_world_def)
qed

theorem other_names_never_trigger_witness:
  "fst (monitor_file (example_env writers (locked_for 0)) watched ''writer.exe''
      [[(3, ''other.txt''), (3, ''app.log.bak'')], [(1, ''data'')]] (init_world example_files)) = Blocked \<and>
   set (trace (snd (monitor_file (example_env writers (locked_for 0)) watched ''writer.exe''
      [[(3, ''other.txt''), (3, ''app.log.bak'')], [(1, ''data'')]] (init_world example_files))))
     \<subseteq> {CreateFile ''C:/data'', ReadDirectoryChangesW} \<and>
   IS_RUNNING (snd (monitor_file (example_env writers (locked_for 0)) watched ''writer.exe''
      [[(3, ''other.txt''), (3, ''app.log.bak'')], [(1, ''data'')]] (init_world example_files))) \<and>
   files (snd (monitor_file (example_env writers (locked_for 0)) watched ''writer.exe''
      [[(3, ''other.txt''), (3, ''app.log.bak'')], [(1, ''data'')]] (init_world example_files)))
     = example_files"
  using other_names_never_trigger [of "[[(3, ''other.txt''), (3, ''app.log.bak'')], [(1, ''data'')]]"
      "example_env writers (locked_for 0)" watched "''writer.exe''" example_files]
  by (simp add: example_env_def example_basename_def example_dirname_def watched_def)

subsection \<open>The main block\<close>

text \<open>C8: with \<open>len(sys.argv) \<noteq> 3\<close>, that is with any number of positional arguments
  other than two, the program prints the usage line and exits with code 1; the monitor
  thread is never started, so no directory handle is opened and nothing is received.\<close>

theorem wrong_argument_count_exits:
  assumes "length argv \<noteq> 3"
  shows "main E fs argv batches ticks =
     \<lparr>main_trace = [Print ''Usage: FileDetection <file_path> <process_name>''],
      exit_code = Some 1, thread = None\<rparr>"
  using assms by (simp add: main_def)

theorem wrong_argument_count_exits_witness:
  "main (example_env writers (locked_for 0)) example_files [''FileDetection''] [[(3, ''app.log'')]] [] =
     \<lparr>main_trace = [Print ''Usage: FileDetection <file_path> <process_name>''],
      exit_code = Some 1, thread = None\<rparr> \<and>
   main (example_env writers (locked_for 0)) example_files [''FileDetection'', ''C:/data/app.log'']
       [[(3, ''app.log'')]] [] =
     \<lparr>main_trace = [Print ''Usage: FileDetection <file_path> <process_name>''],
      exit_code = Some 1, thread = None\<rparr> \<and>
   main (example_env writers (locked_for 0)) example_files
       [''FileDetection'', ''C:/data/app.log'', ''writer.exe'', ''extra''] [[(3, ''app.log'')]] [] =
     \<lparr>main_trace = [Print ''Usage: FileDetection <file_path> <process_name>''],
      exit_code = Some 1, thread = None\<rparr>"
  using wrong_argument_count_exits [of "[''FileDetection'']"]
    wrong_argument_count_exits [of "[''FileDetection'', ''C:/data/app.log'']"]
    wrong_argument_count_exits [of "[''FileDetection'', ''C:/data/app.log'', ''writer.exe'', ''extra'']"]
  by simp

lemma wait_loop_trace:
  "wait_loop ticks tr = Some (r, tr') \<Longrightarrow>
   (r = None \<or> r = Some KeyboardInterrupt) \<and> (\<exists>n. tr' = tr @ replicate n (Sleep 1))"
proof (induction ticks arbitrary: tr)
  case Nil
  then show ?case by simp
next
  case (Cons t ticks)
  show ?case
  proof (cases "seen t")
    case False
    with Cons.prems show ?thesis by simp
  next
    case seen: True
    show ?thesis
    proof (cases "interrupt t")
      case True
      with seen Cons.prems have "r = Some KeyboardInterrupt" "tr' = tr @ replicate 1 (Sleep 1)"
        by simp_all
      then show ?thesis by blast
    next
      case False
      with seen Cons.prems have "wait_loop ticks (tr @ [Sleep 1]) = Some (r, tr')" by simp
      from Cons.IH [OF this] obtain n where
        "r = None \<or> r = Some KeyboardInterrupt" "tr' = tr @ replicate (Suc n) (Sleep 1)"
        by auto
      then show ?thesis by blast
    qed
  qed
qed

lemma wait_loop_exits:
  "t \<in> set ticks \<Longrightarrow> \<not> seen t \<or> interrupt t \<Longrightarrow> wait_loop ticks tr \<noteq> None"
  by (induction ticks arbitrary: tr) auto

lemma foreground_ack:
  assumes "foreground E ticks tr = Some (r, tr')"
  shows "r = input_error E \<and>
     (\<exists>mid. tr' = tr @ mid @ [Input ''Press Enter to quit''] \<and>
        Input ''Press Enter to quit'' \<notin> set mid)"
proof -
  from assms obtain r1 tr1 where w: "wait_loop ticks tr = Some (r1, tr1)"
    by (auto simp: foreground_def split: option.splits)
  from wait_loop_trace [OF w] obtain n where
    n: "r1 = None \<or> r1 = Some KeyboardInterrupt" "tr1 = tr @ replicate n (Sleep 1)"
    by auto
  from n(1) show ?thesis
  proof
    assume "r1 = None"
    with assms w n(2) have "r = input_error E"
      "tr' = tr @ replicate n (Sleep 1) @ [Input ''Press Enter to quit'']"
      by (auto simp: foreground_def Let_def split: option.splits)
    then show ?thesis by (intro conjI exI [of _ "replicate n (Sleep 1)"]) simp_all
  next
    assume "r1 = Some KeyboardInterrupt"
    with assms w n(2) have "r = input_error E"
      "tr' = tr @ (replicate n (Sleep 1) @ [Print ''KeyboardInterrupt'']) @ [Input ''Press Enter to quit'']"
      by (auto simp: foreground_def Let_def split: option.splits)
    then show ?thesis
      by (intro conjI exI [of _ "replicate n (Sleep 1) @ [Print ''KeyboardInterrupt'']"]) simp_all
  qed
qed

text \<open>C9, as the code has it: with two positional arguments, whenever the process exits,
  the last thing the main thread did is the call of \<open>input\<close>, made once, whether the loop
  ended on the flag or on Ctrl-C; when that call reads a line the exit code is 0, and when
  it raises the exit code is not 0. The process does reach that call as soon as the loop
  test sees the flag false or Ctrl-C arrives during a sleep.\<close>

theorem controller_awaits_acknowledgment:
  assumes "length argv = 3"
  shows "(exit_code (main E fs argv batches ticks) \<noteq> None \<longrightarrow>
            last (main_trace (main E fs argv batches ticks)) = Input ''Press Enter to quit'' \<and>
            count_list (main_trace (main E fs argv batches ticks)) (Input ''Press Enter to quit'') = 1 \<and>
            (input_error E = None \<longrightarrow> exit_code (main E fs argv batches ticks) = Some 0) \<and>
            (input_error E \<noteq> None \<longrightarrow> exit_code (main E fs argv batches ticks) \<noteq> Some 0)) \<and>
         ((\<exists>t\<in>set ticks. \<not> seen t \<or> interrupt t) \<longrightarrow>
            exit_code (main E fs argv batches ticks) \<noteq> None)"
proof -
  let ?tr = "[Print (''Monitoring '' @ argv ! 1 @ '' for activity...''),
              ThreadStart (argv ! 1) (argv ! 2)]"
  show ?thesis
  proof (cases "foreground E ticks ?tr")
    case None
    then have "wait_loop ticks ?tr = None"
      by (auto simp: foreground_def Let_def split: option.splits prod.splits if_splits)
    then have "\<not> (\<exists>t\<in>set ticks. \<not> seen t \<or> interrupt t)"
      using wait_loop_exits [of _ ticks ?tr] by blast
    with None assms show ?thesis by (simp add: main_def Let_def)
  next
    case (Some res)
    obtain r tr' where res: "res = (r, tr')" by (cases res)
    from foreground_ack [OF Some [unfolded res]] obtain mid where
      r: "r = input_error E" and tr': "tr' = ?tr @ mid @ [Input ''Press Enter to quit'']"
      and mid: "Input ''Press Enter to quit'' \<notin> set mid"
      by auto
    show ?thesis
    proof (cases "input_error E")
      case None
      with r res Some have "foreground E ticks ?tr = Some (None, tr')" by simp
      with assms tr' mid None show ?thesis
        by (simp add: main_def Let_def count_list_0_iff)
    next
      case (Some e)
      with r res \<open>foreground E ticks ?tr = Some res\<close>
      have "foreground E ticks ?tr = Some (Some e, tr')" by simp
      with assms tr' mid Some show ?thesis
        by (simp add: main_def Let_def count_list_0_iff uncaught_exit_code_def)
    qed
  qed
qed

theorem controller_awaits_acknowledgment_witness:
  "main_trace (main (example_env writers (locked_for 0)) example_files example_argv
       [[(3, ''app.log'')]] ticks_triggered) =
     [Print ''Monitoring C:/data/app.log for activity...'',
      ThreadStart ''C:/data/app.log'' ''writer.exe'', Sleep 1, Sleep 1,
      Input ''Press Enter to quit''] \<and>
   exit_code (main (example_env writers (locked_for 0)) example_files example_argv
       [[(3, ''app.log'')]] ticks_triggered) = Some 0 \<and>
   last (main_trace (main (example_env writers (locked_for 0)) example_files example_argv
       [[(3, ''app.log'')]] ticks_triggered)) = Input ''Press Enter to quit'' \<and>
   main_trace (main (example_env writers (locked_for 0)) example_files example_argv
       [] ticks_interrupted) =
     [Print ''Monitoring C:/data/app.log for activity...'',
      ThreadStart ''C:/data/app.log'' ''writer.exe'', Sleep 1, Sleep 1,
      Print ''KeyboardInterrupt'', Input ''Press Enter to quit''] \<and>
   exit_code (main (example_env writers (locked_for 0)) example_files example_argv
       [] ticks_interrupted) = Some 0 \<and>
   last (main_trace (main (example_env writers (locked_for 0)) example_files example_argv
       [] ticks_interrupted)) = Input ''Press Enter to quit''"
proof -
  have len: "length example_argv = 3" by (simp add: example_argv_def)
  have line: "input_error (example_env writers (locked_for 0)) = None"
    by (simp add: example_env_def)
  have t1: "\<exists>t\<in>set ticks_triggered. \<not> seen t \<or> interrupt t"
    by (simp add: ticks_triggered_def)
  have t2: "\<exists>t\<in>set ticks_interrupted. \<not> seen t \<or> interrupt t"
    by (simp add: ticks_interrupted_def)
  have tr1: "main_trace (main (example_env writers (locked_for 0)) example_files example_argv
       [[(3, ''app.log'')]] ticks_triggered) =
     [Print ''Monitoring C:/data/app.log for activity...'',
      ThreadStart ''C:/data/app.log'' ''writer.exe'', Sleep 1, Sleep 1,
      Input ''Press Enter to quit'']"
    by (simp add: main_def foreground_def Let_def example_argv_def ticks_triggered_def example_env_def)
  have tr2: "main_trace (main (example_env writers (locked_for 0)) example_files example_argv
       [] ticks_interrupted) =
     [Print ''Monitoring C:/data/app.log for activity...'',
      ThreadStart ''C:/data/app.log'' ''writer.exe'', Sleep 1, Sleep 1,
      Print ''KeyboardInterrupt'', Input ''Press Enter to quit'']"
    by (simp add: main_def foreground_def Let_def example_argv_def ticks_interrupted_def example_env_def)
  from controller_awaits_acknowledgment [OF len, of "example_env writers (locked_for 0)"
      example_files "[[(3, ''app.log'')]]" ticks_triggered]
    controller_awaits_acknowledgment [OF len, of "example_env writers (locked_for 0)"
      example_files "[]" ticks_interrupted] line t1 t2 tr1 tr2
  show ?thesis by simp
qed

text \<open>Standard input is at its end: the loop ends on the flag, \<open>input\<close> raises \<open>EOFError\<close>
  without waiting for anyone, the exception leaves the main block and the exit code
  is 1.\<close>

theorem controller_counterexample:
  "input_error ((example_env writers (locked_for 0))\<lparr>input_error := Some EOFError\<rparr>) = Some EOFError \<and>
   foreground ((example_env writers (locked_for 0))\<lparr>input_error := Some EOFError\<rparr>)
       ticks_triggered [] =
     Some (Some EOFError, [Sleep 1, Sleep 1, Input ''Press Enter to quit'']) \<and>
   exit_code (main ((example_env writers (locked_for 0))\<lparr>input_error := Some EOFError\<rparr>)
       example_files example_argv [[(3, ''app.log'')]] ticks_triggered) = Some 1"
  by (simp add: main_def foreground_def Let_def example_argv_def ticks_triggered_def example_env_def
        uncaught_exit_code_def)

end
